theory Spec2Isabelle
  imports Main "HOL-Library.Word"
begin

unbundle bit_operations_syntax

section \<open>Validity domain (Vme.hxx)\<close>

text \<open>
  A channel value is an \<open>int16_t\<close>, modelled as a 16-bit word that \<open>sint\<close> reads as two's
  complement.  \<open>vme::NONE\<close> is the default sentinel \<open>-1\<close> (the build without
  \<open>VME_NO_DATA\<close>).
\<close>

type_synonym sample = "16 word"

definition NONE :: sample where
  "NONE = -1"

text \<open>\<open>is_valid(t)\<close> and its overloads for two to ten values, each written as in the header.\<close>

definition is_valid :: "sample \<Rightarrow> bool" where
  "is_valid t \<longleftrightarrow> t \<noteq> NONE"

definition is_valid2 :: "sample \<Rightarrow> sample \<Rightarrow> bool" where
  "is_valid2 t1 t2 \<longleftrightarrow> (t1 \<noteq> NONE \<and> t2 \<noteq> NONE)"

definition is_valid3 :: "sample \<Rightarrow> sample \<Rightarrow> sample \<Rightarrow> bool" where
  "is_valid3 t1 t2 t3 \<longleftrightarrow> (t1 \<noteq> NONE \<and> t2 \<noteq> NONE \<and> t3 \<noteq> NONE)"

definition is_valid4 :: "sample \<Rightarrow> sample \<Rightarrow> sample \<Rightarrow> sample \<Rightarrow> bool" where
  "is_valid4 t1 t2 t3 t4 \<longleftrightarrow> (t1 \<noteq> NONE \<and> t2 \<noteq> NONE \<and> t3 \<noteq> NONE \<and> t4 \<noteq> NONE)"

definition is_valid5 :: "sample \<Rightarrow> sample \<Rightarrow> sample \<Rightarrow> sample \<Rightarrow> sample \<Rightarrow> bool" where
  "is_valid5 t1 t2 t3 t4 t5 \<longleftrightarrow>
     (t1 \<noteq> NONE \<and> t2 \<noteq> NONE \<and> t3 \<noteq> NONE \<and> t4 \<noteq> NONE \<and> t5 \<noteq> NONE)"

definition is_valid6 ::
  "sample \<Rightarrow> sample \<Rightarrow> sample \<Rightarrow> sample \<Rightarrow> sample \<Rightarrow> sample \<Rightarrow> bool" where
  "is_valid6 t1 t2 t3 t4 t5 t6 \<longleftrightarrow>
     (t1 \<noteq> NONE \<and> t2 \<noteq> NONE \<and> t3 \<noteq> NONE \<and> t4 \<noteq> NONE \<and> t5 \<noteq> NONE \<and>
      t6 \<noteq> NONE)"

definition is_valid7 ::
  "sample \<Rightarrow> sample \<Rightarrow> sample \<Rightarrow> sample \<Rightarrow> sample \<Rightarrow> sample \<Rightarrow> sample \<Rightarrow> bool" where
  "is_valid7 t1 t2 t3 t4 t5 t6 t7 \<longleftrightarrow>
     (t1 \<noteq> NONE \<and> t2 \<noteq> NONE \<and> t3 \<noteq> NONE \<and> t4 \<noteq> NONE \<and> t5 \<noteq> NONE \<and>
      t6 \<noteq> NONE \<and> t7 \<noteq> NONE)"

definition is_valid8 ::
  "sample \<Rightarrow> sample \<Rightarrow> sample \<Rightarrow> sample \<Rightarrow> sample \<Rightarrow> sample \<Rightarrow> sample \<Rightarrow> sample \<Rightarrow> bool"
  where
  "is_valid8 t1 t2 t3 t4 t5 t6 t7 t8 \<longleftrightarrow>
     (t1 \<noteq> NONE \<and> t2 \<noteq> NONE \<and> t3 \<noteq> NONE \<and> t4 \<noteq> NONE \<and> t5 \<noteq> NONE \<and>
      t6 \<noteq> NONE \<and> t7 \<noteq> NONE \<and> t8 \<noteq> NONE)"

definition is_valid9 ::
  "sample \<Rightarrow> sample \<Rightarrow> sample \<Rightarrow> sample \<Rightarrow> sample \<Rightarrow> sample \<Rightarrow> sample \<Rightarrow> sample \<Rightarrow> sample
     \<Rightarrow> bool" where
  "is_valid9 t1 t2 t3 t4 t5 t6 t7 t8 t9 \<longleftrightarrow>
     (t1 \<noteq> NONE \<and> t2 \<noteq> NONE \<and> t3 \<noteq> NONE \<and> t4 \<noteq> NONE \<and> t5 \<noteq> NONE \<and>
      t6 \<noteq> NONE \<and> t7 \<noteq> NONE \<and> t8 \<noteq> NONE \<and> t9 \<noteq> NONE)"

definition is_valid10 ::
  "sample \<Rightarrow> sample \<Rightarrow> sample \<Rightarrow> sample \<Rightarrow> sample \<Rightarrow> sample \<Rightarrow> sample \<Rightarrow> sample \<Rightarrow> sample
     \<Rightarrow> sample \<Rightarrow> bool" where
  "is_valid10 t1 t2 t3 t4 t5 t6 t7 t8 t9 t10 \<longleftrightarrow>
     (t1 \<noteq> NONE \<and> t2 \<noteq> NONE \<and> t3 \<noteq> NONE \<and> t4 \<noteq> NONE \<and> t5 \<noteq> NONE \<and>
      t6 \<noteq> NONE \<and> t7 \<noteq> NONE \<and> t8 \<noteq> NONE \<and> t9 \<noteq> NONE \<and> t10 \<noteq> NONE)"

text \<open>
  The array form \<open>is_valid(tArray, len)\<close>: the loop \<open>for (i = 0; i < len; ++i)\<close> with its
  early \<open>return false\<close>.  The array is the list of its elements; a read at an index outside
  it has no defined value in C++ and is the result \<open>None\<close>.
\<close>

function is_valid_loop :: "sample list \<Rightarrow> int \<Rightarrow> int \<Rightarrow> bool option" where
  "is_valid_loop tArray len i =
     (if i < len then
        (if i < 0 \<or> int (length tArray) \<le> i then None
         else if tArray ! nat i = NONE then Some False
         else is_valid_loop tArray len (i + 1))
      else Some True)"
  by pat_completeness auto
termination
  by (relation "measure (\<lambda>(tArray, len, i). nat (len - i))") auto

declare is_valid_loop.simps [simp del]

definition is_valid_array :: "sample list \<Rightarrow> int \<Rightarrow> bool option" where
  "is_valid_array tArray len = is_valid_loop tArray len 0"

section \<open>CAEN ADC decoder (Adc.cxx)\<close>

text \<open>
  Modelled from the spec: the masks \<open>READ1\<close>, \<open>READ3\<close>, \<open>READ5\<close>, \<open>READ8\<close>, \<open>READ12\<close>
  and \<open>READ24\<close> of utils/Bits.hxx, which is not among the sources.  The spec gives the
  width of each field (a 1-bit flag, the 3-bit tag, the 5-bit channel id, the 8-bit
  channel count, the 12-bit value, the 24-bit event counter); \<open>READn\<close> is the mask of the
  \<open>n\<close> low bits.
\<close>

definition READ1 :: "32 word" where "READ1 = 0x1"
definition READ3 :: "32 word" where "READ3 = 0x7"
definition READ5 :: "32 word" where "READ5 = 0x1F"
definition READ8 :: "32 word" where "READ8 = 0xFF"
definition READ12 :: "32 word" where "READ12 = 0xFFF"
definition READ24 :: "32 word" where "READ24 = 0xFFFFFF"

text \<open>
  Modelled from the spec: the class \<open>vme::caen::Adc<32>\<close> of Adc.hxx, which is not among
  the sources: the array of 32 samples and the scalar fields the decoder assigns.  The
  array is a list; a well-formed module has 32 entries.
\<close>

record adc =
  n_present :: "16 word"
  count :: "32 word"
  overflow :: bool
  underflow :: bool
  data :: "sample list"

definition DATA_BITS :: int where "DATA_BITS = 0x0"
definition HEADER_BITS :: int where "HEADER_BITS = 0x2"
definition FOOTER_BITS :: int where "FOOTER_BITS = 0x4"
definition INVALID_BITS :: int where "INVALID_BITS = 0x6"

text \<open>
  What the decoder throws, and what it writes to the error stream: a function returns
  the messages it wrote, in order, next to its result.
\<close>

datatype exn = invalid_argument string

fun what :: "exn \<Rightarrow> string" where
  "what (invalid_argument s) = s"

datatype adc_msg =
    ChannelNumberError "16 word"
  | InvalidBitsError
  | UnknownTypeError bool bool bool
  | Caught string string

type_synonym AdcUnpacker = "32 word \<Rightarrow> adc \<Rightarrow> adc_msg list \<times> (exn + adc)"

definition unpack_adc_data :: AdcUnpacker where
  "unpack_adc_data d32 module =
     (let ch = (ucast (drop_bit 16 d32 AND READ5) :: 16 word) in
      if 32 < ch then
        ([ChannelNumberError ch], Inl (invalid_argument ''Invalid channel number.''))
      else
        ([], Inr (module
          \<lparr>underflow := (drop_bit 13 d32 AND READ1 \<noteq> 0),
           overflow := (drop_bit 12 d32 AND READ1 \<noteq> 0),
           data := (data module)[unat ch := ucast (drop_bit 0 d32 AND READ12)]\<rparr>)))"

definition unpack_adc_header :: AdcUnpacker where
  "unpack_adc_header d32 module =
     ([], Inr (module\<lparr>n_present := ucast (drop_bit 6 d32 AND READ8)\<rparr>))"

definition unpack_adc_footer :: AdcUnpacker where
  "unpack_adc_footer d32 module =
     ([], Inr (module\<lparr>count := drop_bit 0 d32 AND READ24\<rparr>))"

definition handle_adc_invalid :: AdcUnpacker where
  "handle_adc_invalid d32 module = ([InvalidBitsError], Inr module)"

text \<open>The dispatch table \<open>unpackers\<close>, a \<open>std::map\<close> from the tag to its handler.\<close>

definition unpackers :: "(int \<times> AdcUnpacker) list" where
  "unpackers =
     [(DATA_BITS, unpack_adc_data),
      (HEADER_BITS, unpack_adc_header),
      (FOOTER_BITS, unpack_adc_footer),
      (INVALID_BITS, handle_adc_invalid)]"

definition run_adc_unpacker ::
  "int \<Rightarrow> 32 word \<Rightarrow> adc \<Rightarrow> adc_msg list \<times> (exn + bool \<times> adc)" where
  "run_adc_unpacker which d32 module =
     (case map_of unpackers which of
        None \<Rightarrow> ([], Inr (False, module))
      | Some unpacker \<Rightarrow>
          (case unpacker d32 module of
             (msgs, Inl e) \<Rightarrow> (msgs, Inl e)
           | (msgs, Inr module') \<Rightarrow> (msgs, Inr (True, module'))))"

text \<open>
  \<open>unpack_adc_buffer\<close> reads the 32-bit word at \<open>address\<close>; the model takes that word.
  The \<open>catch\<close> turns an exception into the result \<open>false\<close>; the module is as the handler
  left it, and \<open>unpack_adc_data\<close> throws before its first assignment.
\<close>

definition unpack_adc_buffer :: "32 word \<Rightarrow> string \<Rightarrow> adc \<Rightarrow> bool \<times> adc \<times> adc_msg list" where
  "unpack_adc_buffer data32 bank module =
     (let type = drop_bit 24 data32 AND READ3 in
      case run_adc_unpacker (uint type) data32 module of
        (msgs, Inr (success, module')) \<Rightarrow>
          if \<not> success then
            (success, module',
             msgs @ [UnknownTypeError (drop_bit 24 data32 AND READ1 \<noteq> 0)
                       (drop_bit 25 data32 AND READ1 \<noteq> 0)
                       (drop_bit 26 data32 AND READ1 \<noteq> 0)])
          else (success, module', msgs)
      | (msgs, Inl e) \<Rightarrow> (False, module, msgs @ [Caught (what e) bank]))"

text \<open>
  Modelled from the spec: \<open>dragon::MidasEvent::FindBank\<close> and \<open>increment_void\<close>, which
  are not among the sources.  An event maps the name of each bank it holds to the bank's
  32-bit words in order; \<open>FindBank\<close> finds the bank or reports that it is absent, and
  \<open>increment_void\<close> steps to the next word of the bank.
\<close>

type_synonym MidasEvent = "string \<rightharpoonup> 32 word list"

text \<open>The loop over the buffers of the bank, from the current position with \<open>ret\<close> so far.\<close>

fun unpack_adc_loop ::
  "32 word list \<Rightarrow> string \<Rightarrow> adc \<Rightarrow> bool \<Rightarrow> bool \<times> adc \<times> adc_msg list" where
  "unpack_adc_loop [] bank module ret = (ret, module, [])"
| "unpack_adc_loop (data32 # p_bank) bank module ret =
     (case unpack_adc_buffer data32 bank module of
        (success, module', msgs) \<Rightarrow>
          (case unpack_adc_loop p_bank bank module' (if \<not> success then False else ret) of
             (ret', module'', msgs') \<Rightarrow> (ret', module'', msgs @ msgs')))"

definition unpack_adc :: "MidasEvent \<Rightarrow> string \<Rightarrow> adc \<Rightarrow> bool \<times> adc \<times> adc_msg list" where
  "unpack_adc event bank module =
     (case event bank of
        None \<Rightarrow> (False, module, [])
      | Some p_bank \<Rightarrow> unpack_adc_loop p_bank bank module True)"

definition buffer_type :: "32 word \<Rightarrow> int" where
  "buffer_type data32 = uint (drop_bit 24 data32 AND READ3)"

definition recognized :: "32 word \<Rightarrow> bool" where
  "recognized data32 \<longleftrightarrow> map_of unpackers (buffer_type data32) \<noteq> None"

text \<open>A module after \<open>vme::reset\<close>: every sample is \<open>NONE\<close>.\<close>

abbreviation fresh_adc :: adc where
  "fresh_adc \<equiv> \<lparr>n_present = 0, count = 0, overflow = False, underflow = False,
     data = replicate 32 NONE\<rparr>"

section \<open>Derived quantities (Functions.hxx)\<close>

text \<open>
  Modelled from the spec: \<open>utils::is_valid\<close> and \<open>dragon::NO_DATA\<close> of Valid.hxx, which is
  not among the sources.  \<open>utils::is_valid\<close> is the validity predicate of the spec, the
  \<open>is_valid\<close> above, and \<open>dragon::NO_DATA\<close> is \<open>-1\<close>, as the comments of Functions.hxx
  state.  The functions return a \<open>double\<close>; on samples every value they compute is an
  integer far below \<open>2 ^ 53\<close>, which a \<open>double\<close> holds exactly, so the result is
  modelled as an \<open>int\<close>.
\<close>

definition NO_DATA :: int where
  "NO_DATA = -1"

definition calculate_tof :: "sample \<Rightarrow> sample \<Rightarrow> int" where
  "calculate_tof t1 t2 =
     (if is_valid t1 \<and> is_valid t2 then sint t1 - sint t2 else NO_DATA)"

text \<open>\<open>calculate_sum(begin, end)\<close>: the loop over the range; \<open>acc\<close> is the running \<open>sum\<close>.\<close>

fun calculate_sum_loop :: "sample list \<Rightarrow> int \<Rightarrow> int" where
  "calculate_sum_loop [] acc = acc"
| "calculate_sum_loop (x # xs) acc =
     calculate_sum_loop xs (if is_valid x then acc + sint x else acc)"

definition calculate_sum :: "sample list \<Rightarrow> int" where
  "calculate_sum xs = calculate_sum_loop xs 0"

section \<open>MIDAS events\<close>

text \<open>
  Modelled from the spec: the event codes of utils/definitions.h, which is not among the
  sources.  Only the cases that \<open>UnpackMidasEvent\<close> and \<open>Process\<close> tell apart are needed,
  not their numbers; any other number in the header is \<open>UNKNOWN_EVENT_ID\<close>.
\<close>

datatype event_id =
    DRAGON_HEAD_EVENT
  | DRAGON_HEAD_SCALER
  | DRAGON_TAIL_EVENT
  | DRAGON_TAIL_SCALER
  | DRAGON_COINC_EVENT
  | DRAGON_TSTAMP_DIAGNOSTICS
  | DRAGON_RUN_PARAMETERS
  | MIDAS_BOR
  | MIDAS_EOR
  | UNKNOWN_EVENT_ID int

record Header =
  fEventId :: event_id
  fDataSize :: nat

text \<open>
  Modelled from the spec: \<open>midas::Event\<close> of midas/Event.hxx, which is not among the
  sources.  The data buffer of an event is kept as the timestamp that its TSC bank holds
  and its bytes.  The constructor with a TSC bank name and a coincidence window reads the
  timestamp and keeps the window with the event; the constructor without them reads no
  timestamp, and nothing reads the two fields of such an event.
\<close>

record EventData =
  tsc :: nat
  bytes :: "8 word list"

record Event =
  ev_id :: event_id
  ev_data :: EventData
  ev_time :: nat
  ev_window :: nat

definition Event3 :: "Header \<Rightarrow> EventData \<Rightarrow> nat \<Rightarrow> Event" where
  "Event3 header dat sz =
     \<lparr>ev_id = fEventId header, ev_data = dat, ev_time = 0, ev_window = 0\<rparr>"

definition Event5 :: "Header \<Rightarrow> EventData \<Rightarrow> nat \<Rightarrow> nat \<Rightarrow> Event" where
  "Event5 header dat sz coincWindow =
     \<lparr>ev_id = fEventId header, ev_data = dat, ev_time = tsc dat, ev_window = coincWindow\<rparr>"

text \<open>
  Modelled from the spec: \<open>midas::CoincEvent\<close>, which is not among the sources.  Of the two
  events it is built from, \<open>fGamma\<close> is the head event and \<open>fHeavyIon\<close> the tail event; a
  part is null when neither event belongs to that subsystem.
\<close>

record CoincEvent =
  fGamma :: "Event option"
  fHeavyIon :: "Event option"

definition new_CoincEvent :: "Event \<Rightarrow> Event \<Rightarrow> CoincEvent" where
  "new_CoincEvent event1 event2 =
     \<lparr>fGamma =
        (if ev_id event1 = DRAGON_HEAD_EVENT then Some event1
         else if ev_id event2 = DRAGON_HEAD_EVENT then Some event2 else None),
      fHeavyIon =
        (if ev_id event1 = DRAGON_TAIL_EVENT then Some event1
         else if ev_id event2 = DRAGON_TAIL_EVENT then Some event2 else None)\<rparr>"

section \<open>The coincidence queue\<close>

text \<open>
  Modelled from the spec: \<open>tstamp::OwnedQueue\<close> and \<open>tstamp::Diagnostics\<close> of TStamp.hxx,
  which is not among the sources; Unpack.cxx only calls them.  The definitions follow
  section 4.5 of the spec.  A pending event carries its subsystem tag (the event code),
  its timestamp, the event and its arrival order; the queue keeps the pending events in
  arrival order.  The coincidence window reaches the queue with each event, as
  \<open>UnpackMidasEvent\<close> hands \<open>GetCoincWindow()\<close> to every event it pushes.  What the queue
  emits, it hands to the \<open>Process\<close> methods of its owner; the model returns it as a list
  of outputs.
\<close>

record PendingEvent =
  subsystem :: event_id
  timestamp :: nat
  payload :: Event
  arrival :: nat

record Diagnostics =
  n_pushed_head :: nat
  n_pushed_tail :: nat
  n_matches :: nat
  n_unmatched :: nat
  n_out_of_order :: nat

definition reset_diagnostics :: "Diagnostics \<Rightarrow> Diagnostics" where
  "reset_diagnostics diag =
     \<lparr>n_pushed_head = 0, n_pushed_tail = 0, n_matches = 0, n_unmatched = 0,
      n_out_of_order = 0\<rparr>"

datatype emitted = Single Event | Coinc Event Event

record Queue =
  pending :: "PendingEvent list"
  next_arrival :: nat
  max_time :: nat

definition new_Queue :: "nat \<Rightarrow> Queue" where
  "new_Queue maxTime = \<lparr>pending = [], next_arrival = 0, max_time = maxTime\<rparr>"

definition depth :: "Queue \<Rightarrow> nat" where
  "depth q = length (pending q)"

definition distance :: "nat \<Rightarrow> nat \<Rightarrow> nat" where
  "distance a b = (if a \<le> b then b - a else a - b)"

text \<open>
  The candidate closest in timestamp to \<open>t\<close>; of two equally close candidates, the one
  with the earlier arrival order.
\<close>

fun closest :: "nat \<Rightarrow> PendingEvent list \<Rightarrow> PendingEvent option" where
  "closest t [] = None"
| "closest t (p # ps) =
     (case closest t ps of
        None \<Rightarrow> Some p
      | Some b \<Rightarrow>
          if distance t (timestamp p) < distance t (timestamp b) \<or>
             (distance t (timestamp p) = distance t (timestamp b) \<and> arrival p \<le> arrival b)
          then Some p else Some b)"

definition count_pushed :: "event_id \<Rightarrow> Diagnostics \<Rightarrow> Diagnostics" where
  "count_pushed s diag =
     (if s = DRAGON_HEAD_EVENT then diag\<lparr>n_pushed_head := n_pushed_head diag + 1\<rparr>
      else if s = DRAGON_TAIL_EVENT then diag\<lparr>n_pushed_tail := n_pushed_tail diag + 1\<rparr>
      else diag)"

text \<open>
  \<open>push\<close>: the new event is matched against the pending events of the other subsystem.
  Within the window, the closest candidate leaves the pending storage and the pair is
  emitted, the head event first; the new event, inserted and at once removed with its
  partner, is not left in the storage.  Otherwise the new event stays pending.  An event
  older than every pending event of its own subsystem is counted as out of order.
\<close>

definition Push :: "Event \<Rightarrow> Diagnostics \<Rightarrow> Queue \<Rightarrow> Queue \<times> Diagnostics \<times> emitted list" where
  "Push event diag q =
     (let new = \<lparr>subsystem = ev_id event, timestamp = ev_time event, payload = event,
                 arrival = next_arrival q\<rparr>;
          own = filter (\<lambda>p. subsystem p = subsystem new) (pending q);
          others = filter (\<lambda>p. subsystem p \<noteq> subsystem new) (pending q);
          diag1 = count_pushed (subsystem new) diag;
          diag2 = (if own \<noteq> [] \<and> list_all (\<lambda>p. timestamp new < timestamp p) own
                   then diag1\<lparr>n_out_of_order := n_out_of_order diag1 + 1\<rparr> else diag1);
          q1 = q\<lparr>next_arrival := next_arrival q + 1\<rparr>
      in case closest (timestamp new) others of
           None \<Rightarrow> (q1\<lparr>pending := pending q @ [new]\<rparr>, diag2, [])
         | Some c \<Rightarrow>
             if distance (timestamp new) (timestamp c) \<le> ev_window event then
               (q1\<lparr>pending := remove1 c (pending q)\<rparr>,
                diag2\<lparr>n_matches := n_matches diag2 + 1\<rparr>,
                [if subsystem new = DRAGON_HEAD_EVENT then Coinc event (payload c)
                 else Coinc (payload c) event])
             else (q1\<lparr>pending := pending q @ [new]\<rparr>, diag2, []))"

text \<open>
  \<open>flush_iterative\<close>: evicts the oldest pending event, the first in arrival order, as an
  unmatched single and returns the depth of the queue after it; on an empty queue it
  does nothing and returns 0.
\<close>

definition FlushIterative :: "Diagnostics \<Rightarrow> Queue \<Rightarrow> nat \<times> Queue \<times> Diagnostics \<times> emitted list"
  where
  "FlushIterative diag q =
     (case pending q of
        [] \<Rightarrow> (0, q, diag, [])
      | p # ps \<Rightarrow>
          (length ps, q\<lparr>pending := ps\<rparr>, diag\<lparr>n_unmatched := n_unmatched diag + 1\<rparr>,
           [Single (payload p)]))"

text \<open>
  The drain that the spec describes for a caller that stops mid-run: \<open>flush_iterative\<close>
  is called until it returns depth 0.  The outputs of all calls are collected in order.
\<close>

function drain :: "Diagnostics \<Rightarrow> Queue \<Rightarrow> emitted list \<Rightarrow> Queue \<times> Diagnostics \<times> emitted list"
  where
  "drain diag q outs =
     (case FlushIterative diag q of
        (n, q', diag', outs') \<Rightarrow>
          if n = 0 then (q', diag', outs @ outs') else drain diag' q' (outs @ outs'))"
  by pat_completeness auto
termination
  by (relation "measure (\<lambda>(diag, q, outs). length (pending q))")
    (auto simp: FlushIterative_def split: list.splits)

declare drain.simps [simp del]

text \<open>
  One call to \<open>flush_iterative\<close> as a step on the diagnostics and the queue, for calling
  it a given number of times in a row.
\<close>

definition flush_once :: "Diagnostics \<times> Queue \<Rightarrow> Diagnostics \<times> Queue" where
  "flush_once = (\<lambda>(diag, q). case FlushIterative diag q of (n, q', diag', outs) \<Rightarrow> (diag', q'))"

section \<open>The unpacker (Unpack.cxx)\<close>

text \<open>
  The state of a \<open>dragon::Unpacker\<close>: the coincidence window, the queue pointer (null is
  \<open>None\<close>), the codes unpacked by the last call and the timestamp diagnostics that
  \<open>fDiag\<close> points to.  The detector objects behind \<open>fHead\<close>, \<open>fTail\<close>, \<open>fCoinc\<close>, the
  scalers and the run parameters belong to classes that are not among the sources; the
  calls into them leave the state modelled here as it is.  \<open>kCoincWindowDefault\<close> and
  \<open>kQueueTimeDefault\<close> of Unpack.hxx are arguments of the constructor.  Using the null
  queue pointer is the fault \<open>NullPointerDereference\<close>.
\<close>

datatype fault = NullPointerDereference

record Unpacker =
  fCoincWindow :: nat
  fQueue :: "Queue option"
  fUnpacked :: "event_id list"
  fDiag :: Diagnostics

definition new_Unpacker :: "nat \<Rightarrow> nat \<Rightarrow> Diagnostics \<Rightarrow> bool \<Rightarrow> Unpacker" where
  "new_Unpacker kCoincWindowDefault kQueueTimeDefault tsdiag singlesMode =
     (let u = \<lparr>fCoincWindow = kCoincWindowDefault, fQueue = None, fUnpacked = [],
                fDiag = tsdiag\<rparr>
      in if \<not> singlesMode then u\<lparr>fQueue := Some (new_Queue (kQueueTimeDefault * 1000000))\<rparr>
         else u)"

text \<open>
  Modelled from the spec: \<open>IsSinglesMode\<close> and \<open>GetCoincWindow\<close> of Unpack.hxx, which is
  not among the sources.  In singles mode no queue is constructed, so the mode is read
  off the queue pointer.
\<close>

definition IsSinglesMode :: "Unpacker \<Rightarrow> bool" where
  "IsSinglesMode u \<longleftrightarrow> fQueue u = None"

definition GetCoincWindow :: "Unpacker \<Rightarrow> nat" where
  "GetCoincWindow u = fCoincWindow u"

definition UnpackHead :: "Event \<Rightarrow> Unpacker \<Rightarrow> Unpacker" where
  "UnpackHead event u = u\<lparr>fUnpacked := fUnpacked u @ [DRAGON_HEAD_EVENT]\<rparr>"

definition UnpackTail :: "Event \<Rightarrow> Unpacker \<Rightarrow> Unpacker" where
  "UnpackTail event u = u\<lparr>fUnpacked := fUnpacked u @ [DRAGON_TAIL_EVENT]\<rparr>"

definition UnpackCoinc :: "CoincEvent \<Rightarrow> Unpacker \<Rightarrow> Unpacker" where
  "UnpackCoinc event u = u\<lparr>fUnpacked := fUnpacked u @ [DRAGON_COINC_EVENT]\<rparr>"

definition UnpackHeadScaler :: "Event \<Rightarrow> Unpacker \<Rightarrow> Unpacker" where
  "UnpackHeadScaler event u = u\<lparr>fUnpacked := fUnpacked u @ [DRAGON_HEAD_SCALER]\<rparr>"

definition UnpackTailScaler :: "Event \<Rightarrow> Unpacker \<Rightarrow> Unpacker" where
  "UnpackTailScaler event u = u\<lparr>fUnpacked := fUnpacked u @ [DRAGON_TAIL_SCALER]\<rparr>"

definition UnpackRunParameters :: "EventData \<Rightarrow> Unpacker \<Rightarrow> Unpacker" where
  "UnpackRunParameters db u = u\<lparr>fUnpacked := fUnpacked u @ [DRAGON_RUN_PARAMETERS]\<rparr>"

definition HandleBor :: "string option \<Rightarrow> Unpacker \<Rightarrow> Unpacker" where
  "HandleBor dbname u = u\<lparr>fDiag := reset_diagnostics (fDiag u)\<rparr>"

text \<open>The three overloads of \<open>Process\<close>.\<close>

definition Process_event :: "Event \<Rightarrow> Unpacker \<Rightarrow> Unpacker" where
  "Process_event event u =
     (case ev_id event of
        DRAGON_HEAD_EVENT \<Rightarrow> UnpackHead event u
      | DRAGON_TAIL_EVENT \<Rightarrow> UnpackTail event u
      | _ \<Rightarrow> u)"

definition Process_coinc :: "Event \<Rightarrow> Event \<Rightarrow> Unpacker \<Rightarrow> Unpacker" where
  "Process_coinc event1 event2 u =
     (let coincEvent = new_CoincEvent event1 event2 in
      if fHeavyIon coincEvent = None \<or> fGamma coincEvent = None then u
      else UnpackCoinc coincEvent u)"

definition Process_diagnostics :: "Unpacker \<Rightarrow> Unpacker" where
  "Process_diagnostics u = u\<lparr>fUnpacked := fUnpacked u @ [DRAGON_TSTAMP_DIAGNOSTICS]\<rparr>"

text \<open>The owner of the queue processes what the queue emits, in order.\<close>

fun deliver :: "emitted list \<Rightarrow> Unpacker \<Rightarrow> Unpacker" where
  "deliver [] u = u"
| "deliver (Single event # outs) u = deliver outs (Process_event event u)"
| "deliver (Coinc event1 event2 # outs) u = deliver outs (Process_coinc event1 event2 u)"

text \<open>
  \<open>tstamp::Queue::Flush\<close> is not among the sources and the spec does not fix which events
  a timed flush evicts; \<open>FlushQueue\<close> takes it as the argument \<open>Flush\<close>.
\<close>

type_synonym Flush_t = "int \<Rightarrow> Diagnostics \<Rightarrow> Queue \<Rightarrow> Queue \<times> Diagnostics \<times> emitted list"

definition FlushQueue :: "Flush_t \<Rightarrow> int \<Rightarrow> Unpacker \<Rightarrow> fault + Unpacker" where
  "FlushQueue Flush flushTime u =
     (case fQueue u of
        None \<Rightarrow> Inl NullPointerDereference
      | Some q \<Rightarrow>
          (case Flush flushTime (fDiag u) q of
             (q', diag', outs) \<Rightarrow> Inr (deliver outs (u\<lparr>fQueue := Some q', fDiag := diag'\<rparr>))))"

definition FlushQueueIterative :: "Unpacker \<Rightarrow> fault + nat \<times> Unpacker" where
  "FlushQueueIterative u =
     (case fQueue u of
        None \<Rightarrow> Inl NullPointerDereference
      | Some q \<Rightarrow>
          (case FlushIterative (fDiag u) q of
             (n, q', diag', outs) \<Rightarrow>
               Inr (n, deliver outs (u\<lparr>fQueue := Some q', fDiag := diag'\<rparr>))))"

definition push_event :: "Event \<Rightarrow> Unpacker \<Rightarrow> fault + Unpacker" where
  "push_event event u =
     (case fQueue u of
        None \<Rightarrow> Inl NullPointerDereference
      | Some q \<Rightarrow>
          (case Push event (fDiag u) q of
             (q', diag', outs) \<Rightarrow> Inr (deliver outs (u\<lparr>fQueue := Some q', fDiag := diag'\<rparr>))))"

definition UnpackMidasEvent ::
  "Header \<Rightarrow> EventData \<Rightarrow> Unpacker \<Rightarrow> fault + event_id list \<times> Unpacker" where
  "UnpackMidasEvent evtHeader dat u0 =
     (let u = u0\<lparr>fUnpacked := []\<rparr>;
          r = (case fEventId evtHeader of
                 DRAGON_HEAD_EVENT \<Rightarrow>
                   if IsSinglesMode u
                   then Inr (UnpackHead (Event3 evtHeader dat (fDataSize evtHeader)) u)
                   else push_event
                          (Event5 evtHeader dat (fDataSize evtHeader) (GetCoincWindow u)) u
               | DRAGON_TAIL_EVENT \<Rightarrow>
                   if IsSinglesMode u
                   then Inr (UnpackTail (Event3 evtHeader dat (fDataSize evtHeader)) u)
                   else push_event
                          (Event5 evtHeader dat (fDataSize evtHeader) (GetCoincWindow u)) u
               | DRAGON_HEAD_SCALER \<Rightarrow>
                   Inr (UnpackHeadScaler (Event3 evtHeader dat (fDataSize evtHeader)) u)
               | DRAGON_TAIL_SCALER \<Rightarrow>
                   Inr (UnpackTailScaler (Event3 evtHeader dat (fDataSize evtHeader)) u)
               | MIDAS_BOR \<Rightarrow> Inr (UnpackRunParameters dat u)
               | MIDAS_EOR \<Rightarrow> Inr (UnpackRunParameters dat u)
               | _ \<Rightarrow> Inr u)
      in case r of Inl e \<Rightarrow> Inl e | Inr u' \<Rightarrow> Inr (fUnpacked u', u'))"

text \<open>
  The public methods of the unpacker as calls, and a run of calls from a state; a run
  stops at the first fault.
\<close>

datatype call =
    CallFlushQueue int
  | CallFlushQueueIterative
  | CallHandleBor "string option"
  | CallUnpackHead Event
  | CallUnpackTail Event
  | CallUnpackCoinc CoincEvent
  | CallUnpackHeadScaler Event
  | CallUnpackTailScaler Event
  | CallUnpackRunParameters EventData
  | CallUnpackMidasEvent Header EventData
  | CallProcessEvent Event
  | CallProcessCoinc Event Event
  | CallProcessDiagnostics

fun invoke :: "Flush_t \<Rightarrow> call \<Rightarrow> Unpacker \<Rightarrow> fault + Unpacker" where
  "invoke Flush (CallFlushQueue flushTime) u = FlushQueue Flush flushTime u"
| "invoke Flush CallFlushQueueIterative u = map_sum id snd (FlushQueueIterative u)"
| "invoke Flush (CallHandleBor dbname) u = Inr (HandleBor dbname u)"
| "invoke Flush (CallUnpackHead event) u = Inr (UnpackHead event u)"
| "invoke Flush (CallUnpackTail event) u = Inr (UnpackTail event u)"
| "invoke Flush (CallUnpackCoinc event) u = Inr (UnpackCoinc event u)"
| "invoke Flush (CallUnpackHeadScaler event) u = Inr (UnpackHeadScaler event u)"
| "invoke Flush (CallUnpackTailScaler event) u = Inr (UnpackTailScaler event u)"
| "invoke Flush (CallUnpackRunParameters db) u = Inr (UnpackRunParameters db u)"
| "invoke Flush (CallUnpackMidasEvent evtHeader dat) u =
     map_sum id snd (UnpackMidasEvent evtHeader dat u)"
| "invoke Flush (CallProcessEvent event) u = Inr (Process_event event u)"
| "invoke Flush (CallProcessCoinc event1 event2) u = Inr (Process_coinc event1 event2 u)"
| "invoke Flush CallProcessDiagnostics u = Inr (Process_diagnostics u)"

fun run :: "Flush_t \<Rightarrow> call list \<Rightarrow> Unpacker \<Rightarrow> fault + Unpacker" where
  "run Flush [] u = Inr u"
| "run Flush (c # cs) u =
     (case invoke Flush c u of Inl e \<Rightarrow> Inl e | Inr u' \<Rightarrow> run Flush cs u')"

section \<open>Concrete inputs\<close>

text \<open>
  The inputs at which the theorems below are instantiated: diagnostics with every counter
  at zero, a head event at timestamp 100 and tail events at 101 and 200 with window 5 (the
  scenario of the spec), the queue in which the head event and the later tail event are
  pending, and a timed flush that evicts nothing.
\<close>

abbreviation no_diagnostics :: Diagnostics where
  "no_diagnostics \<equiv> \<lparr>n_pushed_head = 0, n_pushed_tail = 0, n_matches = 0, n_unmatched = 0,
     n_out_of_order = 0\<rparr>"

abbreviation head_100 :: Event where
  "head_100 \<equiv> \<lparr>ev_id = DRAGON_HEAD_EVENT, ev_data = \<lparr>tsc = 100, bytes = []\<rparr>,
     ev_time = 100, ev_window = 5\<rparr>"

abbreviation tail_101 :: Event where
  "tail_101 \<equiv> \<lparr>ev_id = DRAGON_TAIL_EVENT, ev_data = \<lparr>tsc = 101, bytes = []\<rparr>,
     ev_time = 101, ev_window = 5\<rparr>"

abbreviation tail_200 :: Event where
  "tail_200 \<equiv> \<lparr>ev_id = DRAGON_TAIL_EVENT, ev_data = \<lparr>tsc = 200, bytes = []\<rparr>,
     ev_time = 200, ev_window = 5\<rparr>"

abbreviation two_pending :: Queue where
  "two_pending \<equiv>
     \<lparr>pending =
        [\<lparr>subsystem = DRAGON_HEAD_EVENT, timestamp = 100, payload = head_100, arrival = 0\<rparr>,
         \<lparr>subsystem = DRAGON_TAIL_EVENT, timestamp = 200, payload = tail_200, arrival = 1\<rparr>],
      next_arrival = 2, max_time = 2000000\<rparr>"

abbreviation no_flush :: Flush_t where
  "no_flush \<equiv> (\<lambda>flushTime diag q. (q, diag, []))"

section \<open>Properties of the validity domain\<close>

lemma is_valid_loop_drop:
  "0 \<le> i \<Longrightarrow> i \<le> int (length xs) \<Longrightarrow>
   is_valid_loop xs (int (length xs)) i = Some (list_all is_valid (drop (nat i) xs))"
proof (induction xs "int (length xs)" i rule: is_valid_loop.induct)
  case (1 tArray i)
  show ?case
  proof (cases "i < int (length tArray)")
    case False
    with "1.prems" show ?thesis
      by (subst is_valid_loop.simps) simp
  next
    case True
    with "1.prems" have lt: "nat i < length tArray" by simp
    have step: "drop (nat i) tArray = tArray ! nat i # drop (nat (i + 1)) tArray"
      using lt "1.prems" by (simp add: Cons_nth_drop_Suc nat_add_distrib)
    show ?thesis
    proof (cases "tArray ! nat i = NONE")
      case True
      with \<open>i < int (length tArray)\<close> "1.prems" step show ?thesis
        by (subst is_valid_loop.simps) (simp add: is_valid_def)
    next
      case False
      have "is_valid_loop tArray (int (length tArray)) (i + 1) =
            Some (list_all is_valid (drop (nat (i + 1)) tArray))"
        using "1.hyps" False "1.prems" \<open>i < int (length tArray)\<close> by simp
      with False \<open>i < int (length tArray)\<close> "1.prems" step show ?thesis
        by (subst is_valid_loop.simps) (simp add: is_valid_def)
    qed
  qed
qed

text \<open>
  Claim C7.  \<open>is_valid x\<close> is false exactly when \<open>x\<close> is the sentinel \<open>NONE\<close>; each overload
  for two to ten values is the conjunction of the single-argument validity of its
  arguments; and the array form, called with the length of the array, returns normally and
  is true exactly when every element of the array is valid.
\<close>

theorem is_valid_contract:
  "((\<not> is_valid x) = (x = NONE)) \<and>
   (is_valid2 t1 t2 = (is_valid t1 \<and> is_valid t2)) \<and>
   (is_valid3 t1 t2 t3 = (is_valid t1 \<and> is_valid t2 \<and> is_valid t3)) \<and>
   (is_valid4 t1 t2 t3 t4 = (is_valid t1 \<and> is_valid t2 \<and> is_valid t3 \<and> is_valid t4)) \<and>
   (is_valid5 t1 t2 t3 t4 t5 =
     (is_valid t1 \<and> is_valid t2 \<and> is_valid t3 \<and> is_valid t4 \<and> is_valid t5)) \<and>
   (is_valid6 t1 t2 t3 t4 t5 t6 =
     (is_valid t1 \<and> is_valid t2 \<and> is_valid t3 \<and> is_valid t4 \<and> is_valid t5 \<and> is_valid t6)) \<and>
   (is_valid7 t1 t2 t3 t4 t5 t6 t7 =
     (is_valid t1 \<and> is_valid t2 \<and> is_valid t3 \<and> is_valid t4 \<and> is_valid t5 \<and> is_valid t6 \<and>
      is_valid t7)) \<and>
   (is_valid8 t1 t2 t3 t4 t5 t6 t7 t8 =
     (is_valid t1 \<and> is_valid t2 \<and> is_valid t3 \<and> is_valid t4 \<and> is_valid t5 \<and> is_valid t6 \<and>
      is_valid t7 \<and> is_valid t8)) \<and>
   (is_valid9 t1 t2 t3 t4 t5 t6 t7 t8 t9 =
     (is_valid t1 \<and> is_valid t2 \<and> is_valid t3 \<and> is_valid t4 \<and> is_valid t5 \<and> is_valid t6 \<and>
      is_valid t7 \<and> is_valid t8 \<and> is_valid t9)) \<and>
   (is_valid10 t1 t2 t3 t4 t5 t6 t7 t8 t9 t10 =
     (is_valid t1 \<and> is_valid t2 \<and> is_valid t3 \<and> is_valid t4 \<and> is_valid t5 \<and> is_valid t6 \<and>
      is_valid t7 \<and> is_valid t8 \<and> is_valid t9 \<and> is_valid t10)) \<and>
   (is_valid_array xs (int (length xs)) = Some (list_all is_valid xs))"
  using is_valid_loop_drop [of 0 xs]
  by (simp add: is_valid_def is_valid2_def is_valid3_def is_valid4_def is_valid5_def
      is_valid6_def is_valid7_def is_valid8_def is_valid9_def is_valid10_def
      is_valid_array_def)

section \<open>Properties of the ADC decoder\<close>

lemma and_READ5: "(x::32 word) AND READ5 = take_bit 5 x"
  by (simp add: READ5_def take_bit_eq_mask mask_eq_exp_minus_1)

lemma and_READ12: "(x::32 word) AND READ12 = take_bit 12 x"
  by (simp add: READ12_def take_bit_eq_mask mask_eq_exp_minus_1)

lemma and_READ8: "(x::32 word) AND READ8 = take_bit 8 x"
  by (simp add: READ8_def take_bit_eq_mask mask_eq_exp_minus_1)

lemma and_READ24: "(x::32 word) AND READ24 = take_bit 24 x"
  by (simp add: READ24_def take_bit_eq_mask mask_eq_exp_minus_1)

lemma and_READ1: "(drop_bit n (x::32 word) AND READ1 \<noteq> 0) = bit x n"
  by (simp add: READ1_def and_one_eq bit_iff_odd_drop_bit odd_iff_mod_2_eq_one)

lemma channel_lt_32: "unat (ucast (drop_bit 16 (d::32 word) AND READ5) :: 16 word) < 32"
  unfolding and_READ5 using take_bit_nat_less_exp [of 5 "unat (drop_bit 16 d)"]
  by (simp add: unsigned_ucast_eq unsigned_take_bit_eq)

lemma channel_guard: "\<not> 32 < (ucast (drop_bit 16 (d::32 word) AND READ5) :: 16 word)"
  using channel_lt_32 [of d] by (simp add: word_less_nat_alt)

lemma channel_id:
  "unat (ucast (drop_bit 16 (d::32 word) AND READ5) :: 16 word) = unat (take_bit 5 (drop_bit 16 d))"
  unfolding and_READ5 using take_bit_nat_less_exp [of 5 "unat (drop_bit 16 d)"]
  by (simp add: unsigned_ucast_eq unsigned_take_bit_eq)

lemma unpack_adc_data_writes:
  "unpack_adc_data d32 module =
     ([], Inr (module
          \<lparr>underflow := (drop_bit 13 d32 AND READ1 \<noteq> 0),
           overflow := (drop_bit 12 d32 AND READ1 \<noteq> 0),
           data := (data module)[unat (ucast (drop_bit 16 d32 AND READ5) :: 16 word) :=
                      ucast (drop_bit 0 d32 AND READ12)]\<rparr>))"
  using channel_guard [of d32] by (simp add: unpack_adc_data_def Let_def)

text \<open>
  Claim C3.  For every 32-bit word and every module with its 32 samples, the channel id
  \<open>c\<close> (bits 16 to 20) is below 32 and \<open>unpack_adc_data\<close> returns normally with a module
  in which \<open>data[c]\<close> is the 12-bit value of the word (bits 0 to 11), every other sample is
  unchanged, the overflow and underflow flags are bits 12 and 13, and \<open>n_present\<close> and
  \<open>count\<close> are unchanged.  No word has a channel id of 32 or more, so the clause of the
  claim for such a channel id (an exception and an unchanged module) holds of every word
  too.
\<close>

theorem unpack_adc_data_frame:
  assumes "length (data module) = 32"
  shows "\<exists>module'. unpack_adc_data d32 module = ([], Inr module') \<and>
     unat (take_bit 5 (drop_bit 16 d32)) < 32 \<and>
     data module' ! unat (take_bit 5 (drop_bit 16 d32)) = ucast (take_bit 12 d32) \<and>
     (\<forall>i. i \<noteq> unat (take_bit 5 (drop_bit 16 d32)) \<longrightarrow> data module' ! i = data module ! i) \<and>
     length (data module') = 32 \<and>
     overflow module' = bit d32 12 \<and> underflow module' = bit d32 13 \<and>
     n_present module' = n_present module \<and> count module' = count module"
  using assms channel_lt_32 [of d32]
  by (simp add: unpack_adc_data_writes channel_id and_READ1 and_READ12)

theorem unpack_adc_data_frame_witness:
  "length (data fresh_adc) = 32 \<and>
   (\<exists>module'. unpack_adc_data 0x00051234 fresh_adc = ([], Inr module') \<and>
      data module' ! 5 = 0x234 \<and> data module' ! 4 = NONE \<and> data module' ! 6 = NONE \<and>
      overflow module' \<and> \<not> underflow module')"
proof -
  have len: "length (data fresh_adc) = 32" by simp
  have c: "unat (take_bit 5 (drop_bit 16 (0x00051234 :: 32 word))) = 5" by simp
  have v: "(ucast (take_bit 12 (0x00051234 :: 32 word)) :: 16 word) = 0x234" by simp
  have b: "bit (0x00051234 :: 32 word) 12" "\<not> bit (0x00051234 :: 32 word) 13"
    by (simp_all add: bit_iff_odd_drop_bit)
  from unpack_adc_data_frame [OF len, of "0x00051234"] obtain module' where
    r: "unpack_adc_data 0x00051234 fresh_adc = ([], Inr module')"
    and w: "data module' ! unat (take_bit 5 (drop_bit 16 (0x00051234 :: 32 word))) =
            ucast (take_bit 12 (0x00051234 :: 32 word))"
    and o: "\<forall>i. i \<noteq> unat (take_bit 5 (drop_bit 16 (0x00051234 :: 32 word))) \<longrightarrow>
            data module' ! i = data fresh_adc ! i"
    and fl: "overflow module' = bit (0x00051234 :: 32 word) 12"
      "underflow module' = bit (0x00051234 :: 32 word) 13"
    by blast
  from o c have "data module' ! 4 = data fresh_adc ! 4" "data module' ! 6 = data fresh_adc ! 6"
    by simp_all
  then have "data module' ! 4 = NONE" "data module' ! 6 = NONE" by simp_all
  with r w c v fl b len show ?thesis by auto
qed

text \<open>
  Claim C10.  For every 32-bit word the channel id that \<open>unpack_adc_data\<close> extracts,
  \<open>(data >> 16) & READ5\<close>, is at most 31; the guard \<open>32 < ch\<close> is therefore false, the
  exception is never thrown and nothing is written to the error stream, and the function
  returns the module with \<open>data[ch]\<close> and both flags assigned.
\<close>

theorem unpack_adc_data_never_throws:
  "unat (ucast (drop_bit 16 d32 AND READ5) :: 16 word) \<le> 31 \<and>
   \<not> 32 < (ucast (drop_bit 16 d32 AND READ5) :: 16 word) \<and>
   unpack_adc_data d32 module =
     ([], Inr (module
          \<lparr>underflow := (drop_bit 13 d32 AND READ1 \<noteq> 0),
           overflow := (drop_bit 12 d32 AND READ1 \<noteq> 0),
           data := (data module)[unat (ucast (drop_bit 16 d32 AND READ5) :: 16 word) :=
                      ucast (drop_bit 0 d32 AND READ12)]\<rparr>))"
  using channel_lt_32 [of d32] channel_guard [of d32] unpack_adc_data_writes [of d32 module]
  by simp

lemma recognized_iff:
  "recognized w \<longleftrightarrow> buffer_type w \<in> {DATA_BITS, HEADER_BITS, FOOTER_BITS, INVALID_BITS}"
  by (simp add: recognized_def unpackers_def)

lemma buffer_DATA:
  "buffer_type w = DATA_BITS \<Longrightarrow>
   unpack_adc_buffer w bank m =
     (True,
      m\<lparr>underflow := (drop_bit 13 w AND READ1 \<noteq> 0),
        overflow := (drop_bit 12 w AND READ1 \<noteq> 0),
        data := (data m)[unat (ucast (drop_bit 16 w AND READ5) :: 16 word) :=
                   ucast (drop_bit 0 w AND READ12)]\<rparr>, [])"
  by (simp add: unpack_adc_buffer_def buffer_type_def run_adc_unpacker_def unpackers_def
      unpack_adc_data_writes DATA_BITS_def)

lemma buffer_HEADER:
  "buffer_type w = HEADER_BITS \<Longrightarrow>
   unpack_adc_buffer w bank m = (True, m\<lparr>n_present := ucast (drop_bit 6 w AND READ8)\<rparr>, [])"
  by (simp add: unpack_adc_buffer_def buffer_type_def run_adc_unpacker_def unpackers_def
      unpack_adc_header_def DATA_BITS_def HEADER_BITS_def)

lemma buffer_FOOTER:
  "buffer_type w = FOOTER_BITS \<Longrightarrow>
   unpack_adc_buffer w bank m = (True, m\<lparr>count := drop_bit 0 w AND READ24\<rparr>, [])"
  by (simp add: unpack_adc_buffer_def buffer_type_def run_adc_unpacker_def unpackers_def
      unpack_adc_footer_def DATA_BITS_def HEADER_BITS_def FOOTER_BITS_def)

lemma buffer_INVALID:
  "buffer_type w = INVALID_BITS \<Longrightarrow>
   unpack_adc_buffer w bank m = (True, m, [InvalidBitsError])"
  by (simp add: unpack_adc_buffer_def buffer_type_def run_adc_unpacker_def unpackers_def
      handle_adc_invalid_def DATA_BITS_def HEADER_BITS_def FOOTER_BITS_def INVALID_BITS_def)

lemma buffer_unknown:
  "\<not> recognized w \<Longrightarrow>
   unpack_adc_buffer w bank m = (False, m, [UnknownTypeError (bit w 24) (bit w 25) (bit w 26)])"
  by (simp add: unpack_adc_buffer_def recognized_def buffer_type_def run_adc_unpacker_def
      and_READ1)

lemma buffer_success: "fst (unpack_adc_buffer w bank m) = recognized w"
proof (cases "recognized w")
  case False
  then show ?thesis by (simp add: buffer_unknown)
next
  case True
  then consider "buffer_type w = DATA_BITS" | "buffer_type w = HEADER_BITS"
    | "buffer_type w = FOOTER_BITS" | "buffer_type w = INVALID_BITS"
    by (auto simp: recognized_iff)
  then show ?thesis
    using True by cases (simp_all add: buffer_DATA buffer_HEADER buffer_FOOTER buffer_INVALID)
qed


lemma loop_ret:
  "fst (unpack_adc_loop ws bank m ret) = (ret \<and> list_all recognized ws)"
proof (induction ws arbitrary: m ret)
  case Nil
  show ?case by simp
next
  case (Cons w ws)
  obtain s m' ms where b: "unpack_adc_buffer w bank m = (s, m', ms)"
    by (cases "unpack_adc_buffer w bank m") auto
  with buffer_success [of w bank m] have s: "s = recognized w" by simp
  obtain r m'' ms' where l:
    "unpack_adc_loop ws bank m' (if \<not> s then False else ret) = (r, m'', ms')"
    by (cases "unpack_adc_loop ws bank m' (if \<not> s then False else ret)") auto
  from Cons.IH [of m' "if \<not> s then False else ret"] l
  have "r = ((if \<not> s then False else ret) \<and> list_all recognized ws)" by simp
  with b l s show ?case by auto
qed

lemma loop_module:
  "fst (snd (unpack_adc_loop ws bank m ret)) =
   foldl (\<lambda>module data32. fst (snd (unpack_adc_buffer data32 bank module))) m ws"
proof (induction ws arbitrary: m ret)
  case Nil
  show ?case by simp
next
  case (Cons w ws)
  obtain s m' ms where b: "unpack_adc_buffer w bank m = (s, m', ms)"
    by (cases "unpack_adc_buffer w bank m") auto
  obtain r m'' ms' where l:
    "unpack_adc_loop ws bank m' (if \<not> s then False else ret) = (r, m'', ms')"
    by (cases "unpack_adc_loop ws bank m' (if \<not> s then False else ret)") auto
  from Cons.IH [of m' "if \<not> s then False else ret"] l b show ?case by simp
qed

lemma loop_msgs:
  "\<not> list_all recognized ws \<Longrightarrow> snd (snd (unpack_adc_loop ws bank m ret)) \<noteq> []"
proof (induction ws arbitrary: m ret)
  case Nil
  then show ?case by simp
next
  case (Cons w ws)
  obtain s m' ms where b: "unpack_adc_buffer w bank m = (s, m', ms)"
    by (cases "unpack_adc_buffer w bank m") auto
  obtain r m'' ms' where l:
    "unpack_adc_loop ws bank m' (if \<not> s then False else ret) = (r, m'', ms')"
    by (cases "unpack_adc_loop ws bank m' (if \<not> s then False else ret)") auto
  show ?case
  proof (cases "recognized w")
    case False
    with b buffer_unknown [of w bank m] have "ms \<noteq> []" by auto
    with b l show ?thesis by simp
  next
    case True
    with Cons.prems have "\<not> list_all recognized ws" by simp
    from Cons.IH [OF this, of m' "if \<not> s then False else ret"] l have "ms' \<noteq> []" by simp
    with b l show ?thesis by simp
  qed
qed

text \<open>
  Claim C4, as amended.  When the bank is present, \<open>unpack_adc\<close> returns true exactly
  when the tag of every word of the bank is one of the four tags of the dispatch table:
  DATA, HEADER, FOOTER and also INVALID, whose handler reports the word and returns
  normally.  A word with any other tag makes the result false.  Whatever the words are, the
  scan runs over the whole bank: the module returned is the one obtained by handing every
  word, in order, to \<open>unpack_adc_buffer\<close>.
\<close>

theorem unpack_adc_success_iff:
  assumes "event bank = Some ws"
  shows "fst (unpack_adc event bank m) =
           list_all (\<lambda>w. buffer_type w \<in> {DATA_BITS, HEADER_BITS, FOOTER_BITS, INVALID_BITS}) ws \<and>
         fst (snd (unpack_adc event bank m)) =
           foldl (\<lambda>module data32. fst (snd (unpack_adc_buffer data32 bank module))) m ws"
  using assms by (simp add: unpack_adc_def loop_ret loop_module recognized_iff [abs_def])

theorem unpack_adc_success_iff_witness:
  "fst (unpack_adc (Map.empty(''VADC'' \<mapsto> [0x02000FC0, 0x00051234, 0x06000000, 0x04ABCDEF]))
         ''VADC'' fresh_adc) \<and>
   \<not> fst (unpack_adc (Map.empty(''VADC'' \<mapsto> [0x02000FC0, 0x03000000, 0x04ABCDEF]))
         ''VADC'' fresh_adc) \<and>
   count (fst (snd (unpack_adc (Map.empty(''VADC'' \<mapsto> [0x02000FC0, 0x03000000, 0x04ABCDEF]))
         ''VADC'' fresh_adc))) = 0xABCDEF"
proof -
  have t: "buffer_type 0x02000FC0 = 2" "buffer_type 0x00051234 = 0" "buffer_type 0x06000000 = 6"
    "buffer_type 0x04ABCDEF = 4" "buffer_type 0x03000000 = 3"
    by (simp_all add: buffer_type_def READ3_def)
  have e1: "(Map.empty(''VADC'' \<mapsto> [0x02000FC0, 0x00051234, 0x06000000, 0x04ABCDEF :: 32 word]))
      ''VADC'' = Some [0x02000FC0, 0x00051234, 0x06000000, 0x04ABCDEF]" by simp
  have e2: "(Map.empty(''VADC'' \<mapsto> [0x02000FC0, 0x03000000, 0x04ABCDEF :: 32 word]))
      ''VADC'' = Some [0x02000FC0, 0x03000000, 0x04ABCDEF]" by simp
  have r3: "\<not> recognized 0x03000000" by (simp add: recognized_iff t DATA_BITS_def HEADER_BITS_def FOOTER_BITS_def INVALID_BITS_def)
  show ?thesis
    using
      unpack_adc_success_iff [of "Map.empty(''VADC'' \<mapsto> [0x02000FC0, 0x00051234, 0x06000000, 0x04ABCDEF])"
        "''VADC''" "[0x02000FC0, 0x00051234, 0x06000000, 0x04ABCDEF]" fresh_adc, OF e1]
      unpack_adc_success_iff [of "Map.empty(''VADC'' \<mapsto> [0x02000FC0, 0x03000000, 0x04ABCDEF])"
        "''VADC''" "[0x02000FC0, 0x03000000, 0x04ABCDEF]" fresh_adc, OF e2]
    by (simp add: t DATA_BITS_def HEADER_BITS_def FOOTER_BITS_def INVALID_BITS_def
        buffer_HEADER buffer_FOOTER buffer_unknown r3 READ24_def)
qed


text \<open>
  Claim C4 as stated fails: a bank whose only word carries the INVALID tag is unpacked
  with the overall result true; the word is reported and the module is left as it was.
\<close>

theorem invalid_tag_counts_as_success:
  "buffer_type 0x06000000 = INVALID_BITS \<and>
   unpack_adc (Map.empty(''VADC'' \<mapsto> [0x06000000])) ''VADC'' fresh_adc =
     (True, fresh_adc, [InvalidBitsError])"
proof -
  have t: "buffer_type 0x06000000 = INVALID_BITS"
    by (simp add: buffer_type_def READ3_def INVALID_BITS_def)
  then show ?thesis by (simp add: unpack_adc_def buffer_INVALID)
qed

lemma step_n_present:
  "n_present (fst (snd (unpack_adc_buffer w bank m))) =
     (if buffer_type w = HEADER_BITS then ucast (take_bit 8 (drop_bit 6 w)) else n_present m)"
proof (cases "recognized w")
  case False
  then have "buffer_type w \<noteq> HEADER_BITS" by (simp add: recognized_iff)
  with False show ?thesis by (simp add: buffer_unknown)
next
  case True
  then consider "buffer_type w = DATA_BITS" | "buffer_type w = HEADER_BITS"
    | "buffer_type w = FOOTER_BITS" | "buffer_type w = INVALID_BITS"
    by (auto simp: recognized_iff)
  then show ?thesis
    by cases (simp_all add: buffer_DATA buffer_HEADER buffer_FOOTER buffer_INVALID and_READ8
        DATA_BITS_def HEADER_BITS_def FOOTER_BITS_def INVALID_BITS_def)
qed

lemma step_count:
  "count (fst (snd (unpack_adc_buffer w bank m))) =
     (if buffer_type w = FOOTER_BITS then take_bit 24 w else count m)"
proof (cases "recognized w")
  case False
  then have "buffer_type w \<noteq> FOOTER_BITS" by (simp add: recognized_iff)
  with False show ?thesis by (simp add: buffer_unknown)
next
  case True
  then consider "buffer_type w = DATA_BITS" | "buffer_type w = HEADER_BITS"
    | "buffer_type w = FOOTER_BITS" | "buffer_type w = INVALID_BITS"
    by (auto simp: recognized_iff)
  then show ?thesis
    by cases (simp_all add: buffer_DATA buffer_HEADER buffer_FOOTER buffer_INVALID and_READ24
        DATA_BITS_def HEADER_BITS_def FOOTER_BITS_def INVALID_BITS_def)
qed

lemma scan_n_present:
  "n_present (foldl (\<lambda>module data32. fst (snd (unpack_adc_buffer data32 bank module))) m ws) =
   foldl (\<lambda>n w. if buffer_type w = HEADER_BITS then ucast (take_bit 8 (drop_bit 6 w)) else n)
     (n_present m) ws"
  by (induction ws arbitrary: m) (simp_all add: step_n_present)

lemma scan_count:
  "count (foldl (\<lambda>module data32. fst (snd (unpack_adc_buffer data32 bank module))) m ws) =
   foldl (\<lambda>c w. if buffer_type w = FOOTER_BITS then take_bit 24 w else c) (count m) ws"
  by (induction ws arbitrary: m) (simp_all add: step_count)

lemma foldl_skip:
  "(\<And>a w. \<not> P w \<Longrightarrow> g a w = a) \<Longrightarrow> foldl g a ws = foldl g a (filter P ws)"
  by (induction ws arbitrary: a) simp_all

lemma header_footer_independent_of_data:
  assumes nd: "filter (\<lambda>w. buffer_type w \<noteq> DATA_BITS) ws = [h, f] \<or>
               filter (\<lambda>w. buffer_type w \<noteq> DATA_BITS) ws = [f, h]"
    and h: "buffer_type h = HEADER_BITS"
    and f: "buffer_type f = FOOTER_BITS"
  shows "n_present (fst (snd (unpack_adc_loop ws bank m True))) = ucast (take_bit 8 (drop_bit 6 h)) \<and>
         count (fst (snd (unpack_adc_loop ws bank m True))) = take_bit 24 f"
proof -
  let ?P = "\<lambda>w. buffer_type w \<noteq> DATA_BITS"
  let ?gn = "\<lambda>n w. if buffer_type w = HEADER_BITS then ucast (take_bit 8 (drop_bit 6 w)) else n"
  let ?gc = "\<lambda>c w. if buffer_type w = FOOTER_BITS then take_bit 24 w else c"
  have n: "foldl ?gn (n_present m) ws = foldl ?gn (n_present m) (filter ?P ws)"
    by (rule foldl_skip) (simp add: DATA_BITS_def HEADER_BITS_def)
  have c: "foldl ?gc (count m) ws = foldl ?gc (count m) (filter ?P ws)"
    by (rule foldl_skip) (simp add: DATA_BITS_def FOOTER_BITS_def)
  from nd h f have "foldl ?gn (n_present m) (filter ?P ws) = ucast (take_bit 8 (drop_bit 6 h))"
    by (auto simp: HEADER_BITS_def FOOTER_BITS_def)
  moreover from nd h f have "foldl ?gc (count m) (filter ?P ws) = take_bit 24 f"
    by (auto simp: HEADER_BITS_def FOOTER_BITS_def)
  ultimately show ?thesis
    using n c by (simp add: loop_module scan_n_present scan_count)
qed


text \<open>
  Claim C8.  Let the bank hold one HEADER word \<open>h\<close>, one FOOTER word \<open>f\<close> (in either
  order) and otherwise only DATA words, any number of them and in any places.  After
  unpacking the bank, \<open>n_present\<close> is the 8-bit field of \<open>h\<close> (bits 6 to 13) and \<open>count\<close>
  is the 24-bit field of \<open>f\<close> (bits 0 to 23): both depend on \<open>h\<close> and \<open>f\<close> alone, not on
  the DATA words, their number or their order.
\<close>

theorem header_footer_fields:
  assumes ev: "event bank = Some ws"
    and nd: "filter (\<lambda>w. buffer_type w \<noteq> DATA_BITS) ws = [h, f] \<or>
             filter (\<lambda>w. buffer_type w \<noteq> DATA_BITS) ws = [f, h]"
    and h: "buffer_type h = HEADER_BITS"
    and f: "buffer_type f = FOOTER_BITS"
  shows "n_present (fst (snd (unpack_adc event bank m))) = ucast (take_bit 8 (drop_bit 6 h)) \<and>
         count (fst (snd (unpack_adc event bank m))) = take_bit 24 f"
  using header_footer_independent_of_data [OF nd h f, of bank m] ev
  by (simp add: unpack_adc_def)

theorem header_footer_fields_witness:
  "n_present (fst (snd (unpack_adc
      (Map.empty(''VADC'' \<mapsto> [0x00051234, 0x02000FC0, 0x00061111, 0x04ABCDEF, 0x00071111]))
      ''VADC'' fresh_adc))) = 0x3F \<and>
   count (fst (snd (unpack_adc
      (Map.empty(''VADC'' \<mapsto> [0x00051234, 0x02000FC0, 0x00061111, 0x04ABCDEF, 0x00071111]))
      ''VADC'' fresh_adc))) = 0xABCDEF \<and>
   n_present (fst (snd (unpack_adc
      (Map.empty(''VADC'' \<mapsto> [0x04ABCDEF, 0x00071111, 0x02000FC0]))
      ''VADC'' fresh_adc))) = 0x3F \<and>
   count (fst (snd (unpack_adc
      (Map.empty(''VADC'' \<mapsto> [0x04ABCDEF, 0x00071111, 0x02000FC0]))
      ''VADC'' fresh_adc))) = 0xABCDEF"
proof -
  let ?ws1 = "[0x00051234, 0x02000FC0, 0x00061111, 0x04ABCDEF, 0x00071111 :: 32 word]"
  let ?ws2 = "[0x04ABCDEF, 0x00071111, 0x02000FC0 :: 32 word]"
  have t: "buffer_type 0x02000FC0 = 2" "buffer_type 0x00051234 = 0" "buffer_type 0x00061111 = 0"
    "buffer_type 0x04ABCDEF = 4" "buffer_type 0x00071111 = 0"
    by (simp_all add: buffer_type_def READ3_def)
  have e1: "(Map.empty(''VADC'' \<mapsto> ?ws1)) ''VADC'' = Some ?ws1" by simp
  have e2: "(Map.empty(''VADC'' \<mapsto> ?ws2)) ''VADC'' = Some ?ws2" by simp
  have n1: "filter (\<lambda>w. buffer_type w \<noteq> DATA_BITS) ?ws1 = [0x02000FC0, 0x04ABCDEF] \<or>
            filter (\<lambda>w. buffer_type w \<noteq> DATA_BITS) ?ws1 = [0x04ABCDEF, 0x02000FC0]"
    by (simp add: t DATA_BITS_def)
  have n2: "filter (\<lambda>w. buffer_type w \<noteq> DATA_BITS) ?ws2 = [0x02000FC0, 0x04ABCDEF] \<or>
            filter (\<lambda>w. buffer_type w \<noteq> DATA_BITS) ?ws2 = [0x04ABCDEF, 0x02000FC0]"
    by (simp add: t DATA_BITS_def)
  have h: "buffer_type 0x02000FC0 = HEADER_BITS" by (simp add: t HEADER_BITS_def)
  have f: "buffer_type 0x04ABCDEF = FOOTER_BITS" by (simp add: t FOOTER_BITS_def)
  have v: "(ucast (take_bit 8 (drop_bit 6 (0x02000FC0 :: 32 word))) :: 16 word) = 0x3F"
    "take_bit 24 (0x04ABCDEF :: 32 word) = 0xABCDEF" by simp_all
  show ?thesis
    using header_footer_fields [of "Map.empty(''VADC'' \<mapsto> ?ws1)" "''VADC''" ?ws1
        "0x02000FC0" "0x04ABCDEF" fresh_adc, OF e1 n1 h f]
      header_footer_fields [of "Map.empty(''VADC'' \<mapsto> ?ws2)" "''VADC''" ?ws2
        "0x02000FC0" "0x04ABCDEF" fresh_adc, OF e2 n2 h f]
    unfolding v by simp
qed

text \<open>
  Claim C5, as amended.  When the named bank is absent, \<open>unpack_adc\<close> returns false,
  leaves the module as it was and writes nothing to the error stream.  When the bank is
  present and a word of it has a tag outside the dispatch table, \<open>unpack_adc\<close> returns
  false as well, and has written to the error stream.  The returned value is the same in
  both cases.
\<close>

theorem unpack_adc_false_both_ways:
  "(event bank = None \<longrightarrow> unpack_adc event bank m = (False, m, [])) \<and>
   (\<forall>ws. event bank = Some ws \<and>
      \<not> list_all (\<lambda>w. buffer_type w \<in> {DATA_BITS, HEADER_BITS, FOOTER_BITS, INVALID_BITS}) ws \<longrightarrow>
      fst (unpack_adc event bank m) = False \<and> snd (snd (unpack_adc event bank m)) \<noteq> [])"
  by (auto simp: unpack_adc_def loop_ret loop_msgs recognized_iff [abs_def])

theorem unpack_adc_false_both_ways_witness:
  "unpack_adc Map.empty ''EMPT'' fresh_adc = (False, fresh_adc, []) \<and>
   fst (unpack_adc (Map.empty(''VADC'' \<mapsto> [0x00051234, 0x05000000])) ''VADC'' fresh_adc) = False \<and>
   snd (snd (unpack_adc (Map.empty(''VADC'' \<mapsto> [0x00051234, 0x05000000])) ''VADC'' fresh_adc))
     \<noteq> []"
proof -
  let ?ws = "[0x00051234, 0x05000000 :: 32 word]"
  have t: "buffer_type 0x00051234 = 0" "buffer_type 0x05000000 = 5"
    by (simp_all add: buffer_type_def READ3_def)
  have bad: "\<not> list_all (\<lambda>w. buffer_type w \<in> {DATA_BITS, HEADER_BITS, FOOTER_BITS, INVALID_BITS}) ?ws"
    by (simp add: t DATA_BITS_def HEADER_BITS_def FOOTER_BITS_def INVALID_BITS_def)
  have e: "(Map.empty(''VADC'' \<mapsto> ?ws)) ''VADC'' = Some ?ws" by simp
  have n: "(Map.empty :: MidasEvent) ''EMPT'' = None" by simp
  from unpack_adc_false_both_ways [of Map.empty "''EMPT''" fresh_adc] n
  have a: "unpack_adc Map.empty ''EMPT'' fresh_adc = (False, fresh_adc, [])" by blast
  from unpack_adc_false_both_ways [of "Map.empty(''VADC'' \<mapsto> ?ws)" "''VADC''" fresh_adc] e bad
  have "fst (unpack_adc (Map.empty(''VADC'' \<mapsto> ?ws)) ''VADC'' fresh_adc) = False \<and>
        snd (snd (unpack_adc (Map.empty(''VADC'' \<mapsto> ?ws)) ''VADC'' fresh_adc)) \<noteq> []"
    by blast
  with a show ?thesis by simp
qed

text \<open>
  Claim C5 as stated fails: for an event without the bank, \<open>unpack_adc\<close> returns false
  and the module as it was; for an event whose bank holds one word of unknown tag, it
  returns false and the module as it was, too.
\<close>

theorem absent_bank_same_as_failure:
  "unpack_adc Map.empty ''VADC'' fresh_adc = (False, fresh_adc, []) \<and>
   fst (unpack_adc (Map.empty(''VADC'' \<mapsto> [0x01000000])) ''VADC'' fresh_adc) = False \<and>
   fst (snd (unpack_adc (Map.empty(''VADC'' \<mapsto> [0x01000000])) ''VADC'' fresh_adc)) = fresh_adc"
proof -
  have "buffer_type 0x01000000 = 1" by (simp add: buffer_type_def READ3_def)
  then have "\<not> recognized 0x01000000"
    by (simp add: recognized_iff DATA_BITS_def HEADER_BITS_def FOOTER_BITS_def INVALID_BITS_def)
  then show ?thesis by (simp add: unpack_adc_def buffer_unknown)
qed

section \<open>Properties of the derived quantities\<close>

lemma calculate_sum_loop_filter:
  "calculate_sum_loop xs acc = acc + sum_list (map sint (filter is_valid xs))"
  by (induction xs arbitrary: acc) simp_all

text \<open>
  Claim C6, as amended.  \<open>calculate_tof t1 t2\<close> is the no-data marker when either
  argument is \<open>NONE\<close>, and the difference \<open>t1 - t2\<close> when both are valid.
  \<open>calculate_sum\<close> does not return the no-data marker for an array that holds \<open>NONE\<close>: it
  skips the entries that are \<open>NONE\<close> and returns the sum of the valid ones.
\<close>

theorem tof_propagates_sum_skips:
  "(t1 = NONE \<or> t2 = NONE \<longrightarrow> calculate_tof t1 t2 = NO_DATA) \<and>
   (t1 \<noteq> NONE \<and> t2 \<noteq> NONE \<longrightarrow> calculate_tof t1 t2 = sint t1 - sint t2) \<and>
   calculate_sum xs = sum_list (map sint (filter (\<lambda>x. x \<noteq> NONE) xs))"
  by (auto simp: calculate_tof_def calculate_sum_def calculate_sum_loop_filter is_valid_def
      [abs_def])

theorem tof_propagates_sum_skips_witness:
  "calculate_tof NONE 7 = NO_DATA \<and> calculate_tof 7 NONE = NO_DATA \<and>
   calculate_tof 300 100 = 200 \<and>
   calculate_sum [300, NONE, 200] = 500"
proof -
  have n: "(7 :: sample) \<noteq> NONE" "(300 :: sample) \<noteq> NONE" "(100 :: sample) \<noteq> NONE"
    "(200 :: sample) \<noteq> NONE"
    by (simp_all add: NONE_def)
  from tof_propagates_sum_skips [of NONE 7 "[]"] have a: "calculate_tof NONE 7 = NO_DATA"
    by simp
  from tof_propagates_sum_skips [of 7 NONE "[]"] have b: "calculate_tof 7 NONE = NO_DATA"
    by simp
  from tof_propagates_sum_skips [of 300 100 "[300, NONE, 200]"] n
  have c: "calculate_tof 300 100 = 200" "calculate_sum [300, NONE, 200] = 500"
    by simp_all
  from a b c show ?thesis by simp
qed

text \<open>
  Claim C6 as stated fails for sums: the array of the example in Functions.hxx,
  \<open>{300, 200, 100, 1, 0, -1}\<close>, holds a \<open>NONE\<close> entry and its sum is 601, not the no-data
  marker.
\<close>

theorem calculate_sum_ignores_none:
  "calculate_sum [300, 200, 100, 1, 0, NONE] = 601 \<and> NO_DATA \<noteq> 601 \<and>
   NONE \<in> set [300, 200, 100, 1, 0, NONE]"
  by (simp add: calculate_sum_def is_valid_def NONE_def NO_DATA_def)

section \<open>Properties of the coincidence queue\<close>

lemma distance_le: "distance a (a + d) = d" "distance (a + d) a = d"
  by (simp_all add: distance_def)

text \<open>
  Claim C1.  Let \<open>h\<close> be a head event with timestamp \<open>T\<close> and \<open>t\<close> a tail event with
  timestamp \<open>T + \<delta>\<close>, both carrying a coincidence window of at least \<open>\<delta>\<close>.  Pushing
  both into a queue with nothing pending, head first or tail first, emits exactly one
  output over the two pushes, the coincidence event pairing \<open>h\<close> with \<open>t\<close>, leaves no
  pending event in the queue and counts one match.
\<close>

theorem coincidence_within_window:
  assumes h: "ev_id h = DRAGON_HEAD_EVENT" and t: "ev_id t = DRAGON_TAIL_EVENT"
    and ts: "ev_time t = ev_time h + \<delta>"
    and w: "\<delta> \<le> ev_window h" "\<delta> \<le> ev_window t"
    and e: "pending q = []"
  shows "(case Push h diag q of (q1, diag1, out1) \<Rightarrow>
           case Push t diag1 q1 of (q2, diag2, out2) \<Rightarrow>
             out1 @ out2 = [Coinc h t] \<and> pending q2 = [] \<and>
             n_matches diag2 = n_matches diag + 1) \<and>
         (case Push t diag q of (q1, diag1, out1) \<Rightarrow>
           case Push h diag1 q1 of (q2, diag2, out2) \<Rightarrow>
             out1 @ out2 = [Coinc h t] \<and> pending q2 = [] \<and>
             n_matches diag2 = n_matches diag + 1)"
  using assms
  by (simp add: Push_def Let_def distance_le count_pushed_def)

lemma FlushIterative_nonempty:
  "pending q \<noteq> [] \<Longrightarrow>
   FlushIterative diag q =
     (depth q - 1, q\<lparr>pending := tl (pending q)\<rparr>,
      diag\<lparr>n_unmatched := n_unmatched diag + 1\<rparr>, [Single (payload (hd (pending q)))])"
  by (cases "pending q") (simp_all add: FlushIterative_def depth_def)

lemma FlushIterative_empty: "pending q = [] \<Longrightarrow> FlushIterative diag q = (0, q, diag, [])"
  by (simp add: FlushIterative_def)

lemma flush_once_depth: "depth (snd (flush_once (diag, q))) = depth q - 1"
  by (cases "pending q") (simp_all add: flush_once_def FlushIterative_def depth_def)

lemma flush_times_depth: "depth (snd ((flush_once ^^ k) (diag, q))) = depth q - k"
proof (induction k)
  case 0
  show ?case by simp
next
  case (Suc k)
  obtain d' q' where s: "(flush_once ^^ k) (diag, q) = (d', q')"
    by (cases "(flush_once ^^ k) (diag, q)") auto
  with Suc have "depth q' = depth q - k" by simp
  with s flush_once_depth [of d' q'] show ?case by simp
qed

lemma drain_result:
  "(case drain diag q outs of (q', diag', outs') \<Rightarrow>
      depth q' = 0 \<and> length outs' = length outs + depth q \<and>
      n_unmatched diag' = n_unmatched diag + depth q)"
proof (induction diag q outs rule: drain.induct)
  case (1 diag q outs)
  show ?case
  proof (cases "pending q")
    case Nil
    then show ?thesis
      by (subst drain.simps) (simp add: FlushIterative_def depth_def)
  next
    case (Cons p ps)
    then have f: "FlushIterative diag q =
        (length ps, q\<lparr>pending := ps\<rparr>, diag\<lparr>n_unmatched := n_unmatched diag + 1\<rparr>,
         [Single (payload p)])"
      by (simp add: FlushIterative_def)
    show ?thesis
    proof (cases "length ps = 0")
      case True
      with f Cons show ?thesis
        by (subst drain.simps) (simp add: depth_def)
    next
      case False
      from "1.IH" [OF f [symmetric] refl refl False]
      have "case drain (diag\<lparr>n_unmatched := n_unmatched diag + 1\<rparr>) (q\<lparr>pending := ps\<rparr>)
                  (outs @ [Single (payload p)]) of
              (q', diag', outs') \<Rightarrow>
                depth q' = 0 \<and> length outs' = length (outs @ [Single (payload p)]) + depth (q\<lparr>pending := ps\<rparr>) \<and>
                n_unmatched diag' = n_unmatched (diag\<lparr>n_unmatched := n_unmatched diag + 1\<rparr>) + depth (q\<lparr>pending := ps\<rparr>)" .
      with f Cons False show ?thesis
        by (subst drain.simps) (simp add: depth_def split: prod.splits)
    qed
  qed
qed

text \<open>
  Claim C2.  On a queue with \<open>N \<ge> 1\<close> pending events, one call to \<open>flush_iterative\<close>
  evicts one event and returns the new depth \<open>N - 1\<close>; on an empty queue it changes
  nothing and returns 0.  Hence \<open>N\<close> calls in a row empty a queue of depth \<open>N\<close> and the
  call after them is a no-op returning 0, and the drain that repeats the call until it
  returns 0 terminates, with an empty queue and one evicted event per event that was
  pending.
\<close>

theorem flush_iterative_drains:
  "(pending q \<noteq> [] \<longrightarrow>
      (case FlushIterative diag q of (n, q', diag', outs) \<Rightarrow>
         depth q' + 1 = depth q \<and> n = depth q' \<and> length outs = 1)) \<and>
   (pending q = [] \<longrightarrow> FlushIterative diag q = (0, q, diag, [])) \<and>
   depth (snd ((flush_once ^^ depth q) (diag, q))) = 0 \<and>
   FlushIterative (fst ((flush_once ^^ depth q) (diag, q)))
       (snd ((flush_once ^^ depth q) (diag, q))) =
     (0, snd ((flush_once ^^ depth q) (diag, q)), fst ((flush_once ^^ depth q) (diag, q)), []) \<and>
   (case drain diag q [] of (q', diag', outs) \<Rightarrow> depth q' = 0 \<and> length outs = depth q)"
proof -
  have a: "pending q \<noteq> [] \<longrightarrow>
      (case FlushIterative diag q of (n, q', diag', outs) \<Rightarrow>
         depth q' + 1 = depth q \<and> n = depth q' \<and> length outs = 1)"
    by (cases "pending q") (simp_all add: FlushIterative_def depth_def)
  have b: "pending q = [] \<longrightarrow> FlushIterative diag q = (0, q, diag, [])"
    by (simp add: FlushIterative_empty)
  have c: "depth (snd ((flush_once ^^ depth q) (diag, q))) = 0"
    by (simp add: flush_times_depth)
  then have "pending (snd ((flush_once ^^ depth q) (diag, q))) = []"
    by (simp add: depth_def)
  then have d: "FlushIterative (fst ((flush_once ^^ depth q) (diag, q)))
       (snd ((flush_once ^^ depth q) (diag, q))) =
     (0, snd ((flush_once ^^ depth q) (diag, q)), fst ((flush_once ^^ depth q) (diag, q)), [])"
    by (rule FlushIterative_empty)
  have e: "case drain diag q [] of (q', diag', outs) \<Rightarrow> depth q' = 0 \<and> length outs = depth q"
    using drain_result [where diag = diag and q = q and outs = "[]"] by (simp split: prod.splits)
  from a b c d e show ?thesis by blast
qed


theorem coincidence_within_window_witness:
  "(case Push head_100 no_diagnostics (new_Queue 2000000) of (q1, diag1, out1) \<Rightarrow>
      case Push tail_101 diag1 q1 of (q2, diag2, out2) \<Rightarrow>
        out1 @ out2 = [Coinc head_100 tail_101] \<and> pending q2 = [] \<and> n_matches diag2 = 1) \<and>
   (case Push tail_101 no_diagnostics (new_Queue 2000000) of (q1, diag1, out1) \<Rightarrow>
      case Push head_100 diag1 q1 of (q2, diag2, out2) \<Rightarrow>
        out1 @ out2 = [Coinc head_100 tail_101] \<and> pending q2 = [] \<and> n_matches diag2 = 1)"
proof -
  have h: "ev_id head_100 = DRAGON_HEAD_EVENT" and t: "ev_id tail_101 = DRAGON_TAIL_EVENT"
    and ts: "ev_time tail_101 = ev_time head_100 + 1"
    and w: "1 \<le> ev_window head_100" "1 \<le> ev_window tail_101"
    and e: "pending (new_Queue 2000000) = []"
    by (simp_all add: new_Queue_def)
  from coincidence_within_window [OF h t ts w e, of no_diagnostics] show ?thesis by simp
qed

lemma two_pending_from_pushes:
  "(case Push head_100 no_diagnostics (new_Queue 2000000) of (q1, diag1, out1) \<Rightarrow>
      case Push tail_200 diag1 q1 of (q2, diag2, out2) \<Rightarrow>
        q2 = two_pending \<and> out1 @ out2 = [] \<and> n_matches diag2 = 0)"
  by (simp add: Push_def new_Queue_def Let_def count_pushed_def distance_def)

theorem flush_iterative_drains_witness:
  "FlushIterative no_diagnostics two_pending =
     (1, two_pending\<lparr>pending := tl (pending two_pending)\<rparr>,
      no_diagnostics\<lparr>n_unmatched := 1\<rparr>, [Single head_100]) \<and>
   FlushIterative no_diagnostics (new_Queue 2000000) =
     (0, new_Queue 2000000, no_diagnostics, []) \<and>
   depth (snd ((flush_once ^^ 2) (no_diagnostics, two_pending))) = 0 \<and>
   (case drain no_diagnostics two_pending [] of
      (q', diag', outs) \<Rightarrow> depth q' = 0 \<and> length outs = 2)"
proof -
  have d: "depth two_pending = 2" by (simp add: depth_def)
  have ne: "pending two_pending \<noteq> []" by simp
  have em: "pending (new_Queue 2000000) = []" by (simp add: new_Queue_def)
  have f: "FlushIterative no_diagnostics two_pending =
     (1, two_pending\<lparr>pending := tl (pending two_pending)\<rparr>,
      no_diagnostics\<lparr>n_unmatched := 1\<rparr>, [Single head_100])"
    by (simp add: FlushIterative_def)
  from flush_iterative_drains [of "new_Queue 2000000" no_diagnostics] em
  have a: "FlushIterative no_diagnostics (new_Queue 2000000) =
     (0, new_Queue 2000000, no_diagnostics, [])" by blast
  from flush_iterative_drains [of two_pending no_diagnostics] d
  have b: "depth (snd ((flush_once ^^ 2) (no_diagnostics, two_pending))) = 0"
    and c: "case drain no_diagnostics two_pending [] of
      (q', diag', outs) \<Rightarrow> depth q' = 0 \<and> length outs = 2"
    by simp_all
  from f a b c show ?thesis by blast
qed


section \<open>Properties of the unpacker\<close>

lemma Process_event_fQueue [simp]: "fQueue (Process_event e u) = fQueue u"
  by (simp add: Process_event_def UnpackHead_def UnpackTail_def split: event_id.splits)

lemma Process_coinc_fQueue [simp]: "fQueue (Process_coinc a b u) = fQueue u"
  by (simp add: Process_coinc_def UnpackCoinc_def Let_def)

lemma deliver_fQueue [simp]: "fQueue (deliver outs u) = fQueue u"
  by (induction outs u rule: deliver.induct) simp_all

lemma invoke_keeps_null:
  "fQueue u = None \<Longrightarrow> invoke Flush c u = Inr u' \<Longrightarrow> fQueue u' = None"
  by (cases c)
    (auto simp: FlushQueue_def FlushQueueIterative_def HandleBor_def UnpackHead_def
      UnpackTail_def UnpackCoinc_def UnpackHeadScaler_def UnpackTailScaler_def
      UnpackRunParameters_def UnpackMidasEvent_def IsSinglesMode_def Process_diagnostics_def
      Let_def split: event_id.splits)

lemma run_keeps_null:
  "fQueue u = None \<Longrightarrow> run Flush cs u = Inr u' \<Longrightarrow> fQueue u' = None"
proof (induction cs arbitrary: u)
  case Nil
  then show ?case by simp
next
  case (Cons c cs)
  from Cons.prems(2) obtain u1 where i: "invoke Flush c u = Inr u1" and r: "run Flush cs u1 = Inr u'"
    by (auto split: sum.splits)
  from invoke_keeps_null [OF Cons.prems(1) i] have "fQueue u1 = None" .
  from Cons.IH [OF this r] show ?case .
qed

lemma invoke_keeps_queue:
  "fQueue u \<noteq> None \<Longrightarrow> \<exists>u'. invoke Flush c u = Inr u' \<and> fQueue u' \<noteq> None"
  by (cases c)
    (auto simp: FlushQueue_def FlushQueueIterative_def HandleBor_def UnpackHead_def
      UnpackTail_def UnpackCoinc_def UnpackHeadScaler_def UnpackTailScaler_def
      UnpackRunParameters_def UnpackMidasEvent_def IsSinglesMode_def Process_diagnostics_def
      push_event_def Let_def split: event_id.splits prod.splits)

lemma run_keeps_queue:
  "fQueue u \<noteq> None \<Longrightarrow> \<exists>u'. run Flush cs u = Inr u' \<and> fQueue u' \<noteq> None"
proof (induction cs arbitrary: u)
  case Nil
  then show ?case by simp
next
  case (Cons c cs)
  from invoke_keeps_queue [OF Cons.prems, of Flush c] obtain u1 where
    i: "invoke Flush c u = Inr u1" and q: "fQueue u1 \<noteq> None" by blast
  from Cons.IH [OF q] i show ?case by simp
qed

text \<open>
  Claim C9.  An unpacker constructed in singles mode has a null queue pointer, and the
  pointer is still null after any run of its methods that returns; on such an unpacker
  \<open>FlushQueue\<close> and \<open>FlushQueueIterative\<close> dereference the null pointer.  On an unpacker
  constructed in coincidence mode every run of methods returns and both operations then
  return normally: construction in coincidence mode is the precondition they need.
\<close>

theorem singles_mode_has_no_queue:
  "fQueue (new_Unpacker w t d True) = None \<and>
   (\<forall>u. run Flush calls (new_Unpacker w t d True) = Inr u \<longrightarrow>
      fQueue u = None \<and>
      FlushQueue Flush flushTime u = Inl NullPointerDereference \<and>
      FlushQueueIterative u = Inl NullPointerDereference) \<and>
   (\<exists>u. run Flush calls (new_Unpacker w t d False) = Inr u \<and>
      (\<exists>u'. FlushQueue Flush flushTime u = Inr u') \<and>
      (\<exists>n u'. FlushQueueIterative u = Inr (n, u')))"
proof -
  have n: "fQueue (new_Unpacker w t d True) = None" by (simp add: new_Unpacker_def)
  have s: "fQueue (new_Unpacker w t d False) \<noteq> None" by (simp add: new_Unpacker_def Let_def)
  have a: "fQueue u = None \<and> FlushQueue Flush flushTime u = Inl NullPointerDereference \<and>
      FlushQueueIterative u = Inl NullPointerDereference"
    if "run Flush calls (new_Unpacker w t d True) = Inr u" for u
    using run_keeps_null [OF n that] by (simp add: FlushQueue_def FlushQueueIterative_def)
  from run_keeps_queue [OF s, of Flush calls] obtain u where
    r: "run Flush calls (new_Unpacker w t d False) = Inr u" and q: "fQueue u \<noteq> None" by blast
  from q have "(\<exists>u'. FlushQueue Flush flushTime u = Inr u') \<and>
      (\<exists>n u'. FlushQueueIterative u = Inr (n, u'))"
    by (auto simp: FlushQueue_def FlushQueueIterative_def split: prod.splits)
  with r n a show ?thesis by blast
qed


theorem singles_mode_has_no_queue_witness:
  "(\<exists>u. run no_flush
          [CallUnpackMidasEvent \<lparr>fEventId = DRAGON_HEAD_EVENT, fDataSize = 0\<rparr>
             \<lparr>tsc = 100, bytes = []\<rparr>,
           CallHandleBor None]
          (new_Unpacker 5 2 no_diagnostics True) = Inr u \<and>
        fQueue u = None \<and>
        fUnpacked u = [DRAGON_HEAD_EVENT] \<and>
        FlushQueue no_flush 1 u = Inl NullPointerDereference \<and>
        FlushQueueIterative u = Inl NullPointerDereference)"
proof -
  let ?calls = "[CallUnpackMidasEvent \<lparr>fEventId = DRAGON_HEAD_EVENT, fDataSize = 0\<rparr>
                   \<lparr>tsc = 100, bytes = []\<rparr>, CallHandleBor None]"
  obtain u where r: "run no_flush ?calls (new_Unpacker 5 2 no_diagnostics True) = Inr u"
    and c: "fUnpacked u = [DRAGON_HEAD_EVENT]"
    by (simp add: new_Unpacker_def UnpackMidasEvent_def IsSinglesMode_def UnpackHead_def
        HandleBor_def Let_def)
  from singles_mode_has_no_queue [of 5 2 no_diagnostics no_flush ?calls 1] r
  have "fQueue u = None \<and> FlushQueue no_flush 1 u = Inl NullPointerDereference \<and>
        FlushQueueIterative u = Inl NullPointerDereference"
    by blast
  with r c show ?thesis by blast
qed

text \<open>
  The same two properties through the unpacker in coincidence mode: a head event and a
  tail event within the window, handed to \<open>UnpackMidasEvent\<close> in either order, unpack as
  one coincidence event and leave the queue empty; and \<open>FlushQueueIterative\<close> returns the
  depth of the queue after removing its front event.
\<close>

lemma unpack_midas_event_coincidence:
  assumes h: "fEventId hh = DRAGON_HEAD_EVENT" and t: "fEventId th = DRAGON_TAIL_EVENT"
    and ts: "tsc tdat = tsc hdat + \<delta>" and w: "\<delta> \<le> fCoincWindow u"
    and q: "fQueue u = Some q" and e: "pending q = []"
  shows "\<exists>u1 u2 q2. UnpackMidasEvent hh hdat u = Inr ([], u1) \<and>
           UnpackMidasEvent th tdat u1 = Inr ([DRAGON_COINC_EVENT], u2) \<and>
           fQueue u2 = Some q2 \<and> pending q2 = []"
    and "\<exists>u1 u2 q2. UnpackMidasEvent th tdat u = Inr ([], u1) \<and>
           UnpackMidasEvent hh hdat u1 = Inr ([DRAGON_COINC_EVENT], u2) \<and>
           fQueue u2 = Some q2 \<and> pending q2 = []"
  using assms
  by (simp_all add: UnpackMidasEvent_def Let_def IsSinglesMode_def push_event_def Push_def
      Event5_def GetCoincWindow_def distance_le count_pushed_def Process_coinc_def
      new_CoincEvent_def UnpackCoinc_def)

lemma FlushQueueIterative_depth:
  assumes "fQueue u = Some q"
  shows "\<exists>u' q'. FlushQueueIterative u = Inr (depth q - 1, u') \<and> fQueue u' = Some q' \<and>
           depth q' = depth q - 1"
  using assms
  by (cases "pending q") (simp_all add: FlushQueueIterative_def FlushIterative_def depth_def)

end
